theory Spec2Isabelle
  imports Complex_Main "HOL-Library.Multiset"
begin

section \<open>Conventions\<close>

text \<open>
  The development embeds the numerical core of \<^verbatim>\<open>src/src/solver.py\<close>. Python floats and
  NumPy \<^verbatim>\<open>float64\<close> entries are modelled as \<^typ>\<open>real\<close>: the arithmetic the code itself
  writes out (scaling, products, sums, comparisons) is exact. The library routines whose
  floating-point result decides what the code does, \<^verbatim>\<open>np.linalg.det\<close>,
  \<^verbatim>\<open>np.linalg.solve\<close>, \<^verbatim>\<open>np.linalg.lstsq\<close> and \<^verbatim>\<open>np.argsort\<close>, are parameters of the
  functions that call them. Python integers are \<^typ>\<open>int\<close>. Every \<^verbatim>\<open>raise\<close> and failing
  \<^verbatim>\<open>assert\<close> of the source is a value \<open>Inl e\<close> of a sum type, a normal return is \<open>Inr v\<close>.
\<close>

datatype error = AssertionError | AttributeError | ValueError | LinAlgError | IndexError

section \<open>Configuration Validator\<close>

text \<open>
  What \<^verbatim>\<open>Vasprun(...)\<close> exposes to \<^verbatim>\<open>is_good_structure\<close>: the three convergence flags.
\<close>

record Vasprun =
  converged :: bool
  converged_electronic :: bool
  converged_ionic :: bool

text \<open>
  A structure folder as the validator sees it: which of the three files exist, the parsed
  \<^verbatim>\<open>vasprun.xml\<close> (\<open>None\<close> when the parser raises an \<^verbatim>\<open>Exception\<close>), and the
  per-atom total magnetisation of the \<^verbatim>\<open>OUTCAR\<close> (\<open>None\<close> when \<^verbatim>\<open>Outcar(...)\<close>
  raises, for instance because the file cannot be read).
\<close>

record struct_folder =
  vasprun_exists :: bool
  osz_exists :: bool
  outcar_exists :: bool
  vasprun :: "Vasprun option"
  outcar_tot :: "real list option"

text \<open>
  \<^verbatim>\<open>get_spin\<close>: \<^verbatim>\<open>magnetization[0]['tot']\<close>, and \<open>0\<close> from the bare \<^verbatim>\<open>except\<close> on any
  failure (unreadable file, or no first atom).
\<close>

fun get_spin :: "real list option \<Rightarrow> real" where
  "get_spin None = 0"
| "get_spin (Some []) = 0"
| "get_spin (Some (m # ms)) = m"

text \<open>
  \<^verbatim>\<open>is_good_structure\<close>, in the order of the source: the three asserts, the parse, the
  product of the convergence flags, the low-spin test \<^verbatim>\<open>abs(get_spin(...)) < 0.9 * ref_magmom\<close>.
\<close>

definition is_good_structure :: "struct_folder \<Rightarrow> real \<Rightarrow> error + bool" where
  "is_good_structure f ref_magmom =
     (if \<not> vasprun_exists f then Inl AssertionError
      else if \<not> osz_exists f then Inl AssertionError
      else if \<not> outcar_exists f then Inl AssertionError
      else (case vasprun f of
              None \<Rightarrow> Inr False
            | Some v \<Rightarrow>
                if \<not> (converged v \<and> converged_electronic v \<and> converged_ionic v)
                then Inr False
                else if \<bar>get_spin (outcar_tot f)\<bar> < (9 / 10) * ref_magmom then Inr False
                else Inr True))"

text \<open>
  \<^verbatim>\<open>find_good_structures\<close>: the reference moment is read from the \<^verbatim>\<open>fm0\<close> folder's
  \<^verbatim>\<open>OUTCAR\<close>, then every listed folder is classified in listing order. An assertion
  failure in any folder aborts the whole call. Folders are identified by their position
  in the listing.
\<close>

fun classify :: "real \<Rightarrow> struct_folder list \<Rightarrow> nat \<Rightarrow> error + (nat list \<times> nat list)" where
  "classify ref_magmom [] k = Inr ([], [])"
| "classify ref_magmom (f # fs) k =
     (case is_good_structure f ref_magmom of
        Inl e \<Rightarrow> Inl e
      | Inr ok \<Rightarrow>
          (case classify ref_magmom fs (Suc k) of
             Inl e \<Rightarrow> Inl e
           | Inr (good, bad) \<Rightarrow> if ok then Inr (k # good, bad) else Inr (good, k # bad)))"

definition find_good_structures ::
  "real list option \<Rightarrow> struct_folder list \<Rightarrow> error + (nat list \<times> nat list)" where
  "find_good_structures fm0_outcar folders = classify (get_spin fm0_outcar) folders 0"

text \<open>The external convergence status of a folder: all files present, parse succeeds, all flags set.\<close>

definition files_present :: "struct_folder \<Rightarrow> bool" where
  "files_present f = (vasprun_exists f \<and> osz_exists f \<and> outcar_exists f)"

definition convergence_status :: "struct_folder \<Rightarrow> bool" where
  "convergence_status f =
     (case vasprun f of
        None \<Rightarrow> False
      | Some v \<Rightarrow> converged v \<and> converged_electronic v \<and> converged_ionic v)"

section \<open>Rounding\<close>

text \<open>
  Python's \<^verbatim>\<open>round(x, n)\<close> and NumPy's \<^verbatim>\<open>round(n)\<close> round to the nearest multiple of
  \<open>10\<^sup>-\<^sup>n\<close>, a tie going to the even neighbour. \<open>rint\<close> is that rounding to an integer.
\<close>

definition rint :: "real \<Rightarrow> int" where
  "rint x =
     (let f = \<lfloor>x\<rfloor>; d = x - of_int f
      in if d < 1 / 2 then f else if 1 / 2 < d then f + 1 else if even f then f else f + 1)"

definition py_round :: "real \<Rightarrow> nat \<Rightarrow> real" where
  "py_round x n = of_int (rint (x * 10 ^ n)) / 10 ^ n"

section \<open>Neighbor-Shell Vectorizer\<close>

text \<open>
  \<^verbatim>\<open>count_nn\<close> reads a structure and asks for the 500 nearest neighbours of atom 1. Its
  input here is what that query returns after the first entry is dropped: the list \<open>a\<close>
  of (element, distance) pairs, or \<open>None\<close> when the file does not exist (the function
  then returns \<^verbatim>\<open>None\<close>).

  \<^verbatim>\<open>unique_dist\<close> is a Python \<^verbatim>\<open>set\<close>. The language fixes no iteration order for a set;
  the order is that of the hash table. It is a parameter \<open>set_iter\<close>: given the values in
  insertion order, the list in which the set enumerates them. The dictionary is filled
  in that order and keeps it (a \<^verbatim>\<open>dict\<close> preserves insertion order), so it is an
  association list.
\<close>

definition magnetic_dist_lst :: "(string \<times> real) list \<Rightarrow> string list \<Rightarrow> (string \<times> real) list" where
  "magnetic_dist_lst a magnetic_atoms =
     map (\<lambda>(el, d). (el, py_round d 3)) (filter (\<lambda>(el, d). el \<in> set magnetic_atoms) a)"

text \<open>The inner loop of \<^verbatim>\<open>count_nn\<close> for one key \<open>d\<close> (the source's \<^verbatim>\<open>dist\<close>), starting from the entry's value 0.\<close>

definition neighbNum :: "string list \<Rightarrow> (string \<times> real) list \<Rightarrow> real \<Rightarrow> int" where
  "neighbNum magnetic_atoms lst d =
     foldl (\<lambda>n (el, distance).
              if d = distance
              then (if el = magnetic_atoms ! 0 then n + 1
                    else if el = magnetic_atoms ! 1 then n - 1 else n)
              else n) 0 lst"

definition count_nn ::
  "(real list \<Rightarrow> real list) \<Rightarrow> (string \<times> real) list option \<Rightarrow> string list \<Rightarrow>
     (real \<times> int) list option" where
  "count_nn set_iter poscar magnetic_atoms =
     (case poscar of
        None \<Rightarrow> None
      | Some a \<Rightarrow>
          (let unique_dist = set_iter (map snd (magnetic_dist_lst a magnetic_atoms))
           in Some (map (\<lambda>d. (d, neighbNum magnetic_atoms
                                    (magnetic_dist_lst a magnetic_atoms) d))
                        unique_dist)))"

text \<open>
  \<^verbatim>\<open>get_nn_list\<close>: the dictionary's values in the dictionary's order. On \<^verbatim>\<open>None\<close> the call
  \<^verbatim>\<open>.values()\<close> raises.
\<close>

definition get_nn_list ::
  "(real list \<Rightarrow> real list) \<Rightarrow> (string \<times> real) list option \<Rightarrow> string \<Rightarrow> error + int list" where
  "get_nn_list set_iter poscar magnetic_atom =
     (case count_nn set_iter poscar [magnetic_atom, ''Po''] of
        None \<Rightarrow> Inl AttributeError
      | Some d \<Rightarrow> Inr (map snd d))"

text \<open>What any Python set guarantees about its enumeration: every value once.\<close>

definition set_iter_ok :: "(real list \<Rightarrow> real list) \<Rightarrow> bool" where
  "set_iter_ok set_iter = (\<forall>xs. distinct (set_iter xs) \<and> set (set_iter xs) = set xs)"

section \<open>Design-Matrix Assembler\<close>

text \<open>Running a list of fallible calls in order: the first exception aborts.\<close>

fun collect :: "(error + 'a) list \<Rightarrow> error + 'a list" where
  "collect [] = Inr []"
| "collect (Inl e # rs) = Inl e"
| "collect (Inr v # rs) = (case collect rs of Inl e \<Rightarrow> Inl e | Inr vs \<Rightarrow> Inr (v # vs))"

text \<open>
  \<^verbatim>\<open>np.append(np.ones([len(nn_matrix), 1]), nn_matrix, 1)\<close>: the list of rows must convert
  to a two-dimensional array with as many rows as the column of ones. An empty list is
  one-dimensional and rows of different lengths give no rectangular array: in both cases
  NumPy raises \<^verbatim>\<open>ValueError\<close>.
\<close>

definition append_ones :: "int list list \<Rightarrow> error + real list list" where
  "append_ones nn_matrix =
     (if nn_matrix = [] then Inl ValueError
      else if \<exists>r \<in> set nn_matrix. length r \<noteq> length (hd nn_matrix) then Inl ValueError
      else Inr (map (\<lambda>r. 1 # map real_of_int r) nn_matrix))"

text \<open>
  \<^verbatim>\<open>nn_matrix_getter\<close>: one neighbour list per good structure, each cut to
  \<^verbatim>\<open>good_structures_number - 1\<close> entries, behind a column of ones. The argument
  \<open>poscars\<close> holds, per good structure, the neighbour data of its \<^verbatim>\<open>siman_inputs\<close> file.
\<close>

definition nn_matrix_getter ::
  "(real list \<Rightarrow> real list) \<Rightarrow> (string \<times> real) list option list \<Rightarrow> string \<Rightarrow>
     error + real list list" where
  "nn_matrix_getter set_iter poscars magnetic_atom =
     (let good_structures_number = length poscars
      in case collect (map (\<lambda>p. get_nn_list set_iter p magnetic_atom) poscars) of
           Inl e \<Rightarrow> Inl e
         | Inr nn_lists \<Rightarrow> append_ones (map (take (good_structures_number - 1)) nn_lists))"

text \<open>\<^verbatim>\<open>nn_spin_matrix = nn_matrix * spin * (spin + 1)\<close>: every entry of the array.\<close>

definition nn_spin_matrix :: "real list list \<Rightarrow> real \<Rightarrow> real list list" where
  "nn_spin_matrix nn_matrix spin = map (map (\<lambda>x. x * spin * (spin + 1))) nn_matrix"

section \<open>Configuration Ranker\<close>

text \<open>
  \<^verbatim>\<open>np.append(nn_spin_matrix, E_list.reshape(len(E_list), 1), axis=1)\<close>: the energies
  become the last column; the row counts must agree.
\<close>

definition full_matrix :: "real list list \<Rightarrow> real list \<Rightarrow> error + real list list" where
  "full_matrix m E_list =
     (if length m \<noteq> length E_list then Inl ValueError
      else Inr (map (\<lambda>(r, e). r @ [e]) (zip m E_list)))"

text \<open>
  \<^verbatim>\<open>np.argsort\<close> is called with its default \<^verbatim>\<open>kind\<close>, which NumPy documents as
  \<^verbatim>\<open>quicksort\<close> and as not stable. It is a parameter \<open>argsort\<close>; \<open>is_argsort\<close> is what
  NumPy promises of its result for any kind: a permutation of the indices that puts the
  values in ascending order.
\<close>

definition is_argsort :: "real list \<Rightarrow> nat list \<Rightarrow> bool" where
  "is_argsort xs p = (mset p = mset [0..<length xs] \<and> sorted (map (\<lambda>k. xs ! k) p))"

text \<open>
  \<^verbatim>\<open>sorted_matrix_getter\<close> first gathers its data through \<^verbatim>\<open>find_good_structures\<close>,
  \<^verbatim>\<open>energy_list_getter\<close> and \<^verbatim>\<open>nn_matrix_getter\<close>; the arguments \<open>nn_matrix\<close> and \<open>E_list\<close>
  are the results of the last two. What follows in the source is embedded here: the
  scaling, the energy column, and the reordering
  \<^verbatim>\<open>full_matrix[np.argsort(full_matrix[:, -1])]\<close>.
\<close>

definition sorted_matrix_getter ::
  "(real list \<Rightarrow> nat list) \<Rightarrow> real list list \<Rightarrow> real list \<Rightarrow> real \<Rightarrow> error + real list list" where
  "sorted_matrix_getter argsort nn_matrix E_list spin =
     (case full_matrix (nn_spin_matrix nn_matrix spin) E_list of
        Inl e \<Rightarrow> Inl e
      | Inr full \<Rightarrow> Inr (map (\<lambda>k. full ! k) (argsort (map last full))))"

section \<open>Arrays and the library's linear algebra\<close>

text \<open>
  A two-dimensional array is the list of its rows. \<open>is_array M c\<close> says that \<open>M\<close> is such
  an array with \<open>c\<close> columns; every NumPy array is one. \<open>square m\<close> says that \<open>m\<close> has as
  many columns as rows.
\<close>

definition is_array :: "real list list \<Rightarrow> nat \<Rightarrow> bool" where
  "is_array M c = (\<forall>r \<in> set M. length r = c)"

definition square :: "real list list \<Rightarrow> bool" where
  "square m = (\<forall>r \<in> set m. length r = length m)"

text \<open>
  \<^verbatim>\<open>np.linalg.det\<close> and \<^verbatim>\<open>np.linalg.solve\<close> are LAPACK routines working in \<^verbatim>\<open>float64\<close>
  arithmetic: the determinant is the product of the pivots of an LU factorisation, and
  it need not be the exact determinant (for an exactly singular array it can be a tiny
  nonzero number). Both routines are parameters of the solver: \<open>np_det m\<close> is the number
  the determinant routine returns on the square array \<open>m\<close>, and \<open>np_solve m b\<close> the vector
  the solver returns. What is modelled of \<^verbatim>\<open>np.linalg.det\<close> itself is that it raises
  \<^verbatim>\<open>LinAlgError\<close> unless the array is square.
\<close>

definition linalg_det :: "(real list list \<Rightarrow> real) \<Rightarrow> real list list \<Rightarrow> error + real" where
  "linalg_det np_det m =
     (if \<exists>r \<in> set m. length r \<noteq> length m then Inl LinAlgError else Inr (np_det m))"

text \<open>
  What the library promises of the solver's result on a square system: one entry per
  equation.
\<close>

definition solve_shape :: "(real list list \<Rightarrow> real list \<Rightarrow> real list) \<Rightarrow> bool" where
  "solve_shape np_solve =
     (\<forall>m b. square m \<and> length b = length m \<longrightarrow> length (np_solve m b) = length m)"

section \<open>Exact Solver\<close>

text \<open>
  \<^verbatim>\<open>exchange_coupling\<close>: the solver's result when the computed determinant is truthy
  (nonzero), and \<^verbatim>\<open>None\<close> by falling off the end otherwise. \<^verbatim>\<open>np.linalg.solve\<close> raises
  only when the factorisation meets a pivot that is exactly zero, and then the computed
  determinant is zero: after a nonzero determinant it returns.
\<close>

definition exchange_coupling ::
  "(real list list \<Rightarrow> real) \<Rightarrow> (real list list \<Rightarrow> real list \<Rightarrow> real list) \<Rightarrow>
     real list list \<Rightarrow> real list \<Rightarrow> error + real list option" where
  "exchange_coupling np_det np_solve m energies =
     (case linalg_det np_det m of
        Inl e \<Rightarrow> Inl e
      | Inr determinant \<Rightarrow>
          if determinant \<noteq> 0 then Inr (Some (np_solve m energies)) else Inr None)"

text \<open>The slice \<^verbatim>\<open>matrix[:i, :i]\<close>: the leading \<open>i\<close> rows, cut to their leading \<open>i\<close> entries.\<close>

definition leading :: "nat \<Rightarrow> real list list \<Rightarrow> real list list" where
  "leading i m = map (take i) (take i m)"

text \<open>
  The loop of \<^verbatim>\<open>j_vector_exact\<close> over the sizes \<open>i\<close>, on \<^verbatim>\<open>matrix[:i, :i]\<close> and
  \<^verbatim>\<open>energies[:i]\<close>: a solution is appended, \<^verbatim>\<open>None\<close> is dropped, an exception ends the
  call.
\<close>

fun exact_loop ::
  "(real list list \<Rightarrow> real) \<Rightarrow> (real list list \<Rightarrow> real list \<Rightarrow> real list) \<Rightarrow>
     real list list \<Rightarrow> real list \<Rightarrow> nat list \<Rightarrow> error + real list list" where
  "exact_loop np_det np_solve m energies [] = Inr []"
| "exact_loop np_det np_solve m energies (i # sizes) =
     (case exchange_coupling np_det np_solve (leading i m) (take i energies) of
        Inl e \<Rightarrow> Inl e
      | Inr solution_vector \<Rightarrow>
          (case exact_loop np_det np_solve m energies sizes of
             Inl e \<Rightarrow> Inl e
           | Inr results \<Rightarrow>
               (case solution_vector of
                  None \<Rightarrow> Inr results
                | Some x \<Rightarrow> Inr (x # results))))"

text \<open>\<^verbatim>\<open>[i[0] for i in results]\<close>; indexing an empty solution raises.\<close>

fun first_components :: "real list list \<Rightarrow> error + real list" where
  "first_components [] = Inr []"
| "first_components ([] # xs) = Inl IndexError"
| "first_components ((e # x) # xs) =
     (case first_components xs of Inl err \<Rightarrow> Inl err | Inr es \<Rightarrow> Inr (e # es))"

text \<open>
  \<^verbatim>\<open>j_vector_exact\<close>. The last column holds the energies (taking it from an array
  without columns raises), the others the coefficients; sizes run over
  \<^verbatim>\<open>range(2, matrix_size + 1)\<close>. The result is the pair
  \<^verbatim>\<open>(E_geom_list, j_vectors_list)\<close>. A list of rows does not record the column count of
  an array without rows; such an array is taken to have a column, as every array the
  ranker builds has.
\<close>

definition j_vector_exact ::
  "(real list list \<Rightarrow> real) \<Rightarrow> (real list list \<Rightarrow> real list \<Rightarrow> real list) \<Rightarrow>
     real list list \<Rightarrow> error + (real list \<times> real list list)" where
  "j_vector_exact np_det np_solve sorted_matrix =
     (if [] \<in> set sorted_matrix then Inl IndexError
      else
        (let energies = map last sorted_matrix;
             m = map butlast sorted_matrix;
             matrix_size = length m
         in case exact_loop np_det np_solve m energies [2..<matrix_size + 1] of
              Inl e \<Rightarrow> Inl e
            | Inr results \<Rightarrow>
                (case first_components results of
                   Inl e \<Rightarrow> Inl e
                 | Inr E_geom_list \<Rightarrow> Inr (E_geom_list, map tl results))))"

section \<open>Least-Squares Solver\<close>

text \<open>
  \<^verbatim>\<open>np.linalg.lstsq\<close> is the library's least-squares routine; it is the parameter
  \<open>lstsq\<close>, from a coefficient array and a right-hand side to the fitted vector. The
  loop of \<^verbatim>\<open>j_vector_lstsq\<close> passes all rows, cut to their leading \<open>i\<close> entries
  (\<^verbatim>\<open>matrix[..., :i]\<close>), and all energies.
\<close>

definition j_vector_lstsq ::
  "(real list list \<Rightarrow> real list \<Rightarrow> real list) \<Rightarrow> real list list \<Rightarrow>
     error + (real list \<times> real list list)" where
  "j_vector_lstsq lstsq sorted_matrix =
     (if [] \<in> set sorted_matrix then Inl IndexError
      else
        (let num_of_variables = length sorted_matrix;
             energies = map last sorted_matrix;
             m = map butlast sorted_matrix;
             results = map (\<lambda>i. lstsq (map (take i) m) energies) [2..<num_of_variables + 1]
         in case first_components results of
              Inl e \<Rightarrow> Inl e
            | Inr E_geom_list \<Rightarrow> Inr (E_geom_list, map tl results)))"

text \<open>What the library promises of the fitted vector's shape: one entry per column.\<close>

definition lstsq_shape :: "(real list list \<Rightarrow> real list \<Rightarrow> real list) \<Rightarrow> bool" where
  "lstsq_shape lstsq = (\<forall>a c b. a \<noteq> [] \<and> is_array a c \<longrightarrow> length (lstsq a b) = c)"

section \<open>Critical-Temperature Estimator\<close>

text \<open>
  \<^verbatim>\<open>k_B\<close> is SciPy's \<^verbatim>\<open>physical_constants['Boltzmann constant in eV/K'][0]\<close>, the
  CODATA value \<open>8.617333262 \<times> 10\<^sup>-\<^sup>5\<close>.
\<close>

definition k_B :: real where
  "k_B = 8617333262 / 10 ^ 14"

text \<open>
  The product \<^verbatim>\<open>j_vector * z_vector_tmp\<close> of a NumPy vector and a list follows NumPy's
  broadcasting: equal lengths multiply entry by entry, a vector of length one is
  stretched to the other's length, any other pair of lengths raises \<^verbatim>\<open>ValueError\<close>.
\<close>

definition broadcast_mul :: "real list \<Rightarrow> real list \<Rightarrow> error + real list" where
  "broadcast_mul xs ys =
     (if length xs = length ys then Inr (map (\<lambda>(x, y). x * y) (zip xs ys))
      else if length xs = 1 then Inr (map (\<lambda>y. hd xs * y) ys)
      else if length ys = 1 then Inr (map (\<lambda>x. x * hd ys) xs)
      else Inl ValueError)"

text \<open>One pass of the loop of \<^verbatim>\<open>Tc_list_getter\<close>, before rounding.\<close>

definition T_c :: "real list \<Rightarrow> int list \<Rightarrow> error + real" where
  "T_c j_vector z_vector =
     (let z_vector_tmp = take (length j_vector) z_vector
      in case broadcast_mul j_vector (map real_of_int z_vector_tmp) of
           Inl e \<Rightarrow> Inl e
         | Inr prods \<Rightarrow> Inr \<bar>2 * pi * sum_list prods / (3 * k_B)\<bar>)"

definition Tc_list_getter :: "real list list \<Rightarrow> int list \<Rightarrow> error + real list" where
  "Tc_list_getter j_vector_list z_vector =
     (case collect (map (\<lambda>j_vector. T_c j_vector z_vector) j_vector_list) of
        Inl e \<Rightarrow> Inl e
      | Inr T_c_list \<Rightarrow> Inr (map (\<lambda>t. py_round t 1) T_c_list))"

section \<open>Auxiliary notions and sample data\<close>

text \<open>A folder passes both tests of the validator against the reference moment \<open>r\<close>.\<close>

definition usable :: "real \<Rightarrow> struct_folder \<Rightarrow> bool" where
  "usable r f = (convergence_status f \<and> \<not> \<bar>get_spin (outcar_tot f)\<bar> < (9 / 10) * r)"

text \<open>A complete, converged folder whose first atom carries the moment \<open>m\<close>.\<close>

definition cfg :: "real \<Rightarrow> struct_folder" where
  "cfg m = \<lparr>vasprun_exists = True, osz_exists = True, outcar_exists = True,
            vasprun = Some \<lparr>converged = True, converged_electronic = True, converged_ionic = True\<rparr>,
            outcar_tot = Some [m]\<rparr>"

text \<open>A complete folder whose ionic relaxation did not converge.\<close>

definition cfg_unconverged :: "real \<Rightarrow> struct_folder" where
  "cfg_unconverged m = \<lparr>vasprun_exists = True, osz_exists = True, outcar_exists = True,
            vasprun = Some \<lparr>converged = False, converged_electronic = True, converged_ionic = False\<rparr>,
            outcar_tot = Some [m]\<rparr>"

text \<open>
  Neighbour data of two structures with one magnetic shell each, at distances that round
  to \<open>2.0\<close>: two iron neighbours (and an oxygen atom, which is ignored) in the first;
  one iron and two placeholder neighbours in the second.
\<close>

definition poscar_A :: "(string \<times> real) list option" where
  "poscar_A = Some [(''Fe'', 2), (''O'', 3 / 2), (''Fe'', 20004 / 10000)]"

definition poscar_B :: "(string \<times> real) list option" where
  "poscar_B = Some [(''Po'', 2), (''Fe'', 2), (''Po'', 19996 / 10000)]"

text \<open>
  The results list of the exact solver when no call raises: what the solver returns for
  the leading systems whose computed determinant is nonzero, in the order of the sizes.
\<close>

definition solutions ::
  "(real list list \<Rightarrow> real) \<Rightarrow> (real list list \<Rightarrow> real list \<Rightarrow> real list) \<Rightarrow>
     real list list \<Rightarrow> real list \<Rightarrow> nat list \<Rightarrow> real list list" where
  "solutions np_det np_solve m energies sizes =
     map (\<lambda>i. np_solve (leading i m) (take i energies))
         (filter (\<lambda>i. np_det (leading i m) \<noteq> 0) sizes)"

text \<open>
  Two routines in exact arithmetic, used as instances of the library routines on sample
  data: the determinant by expansion along the first row, and the solution of a square
  system by Cramer's rule (component \<open>j\<close> is the determinant of the matrix with column
  \<open>j\<close> replaced by the right-hand side, over the determinant).
\<close>

definition del_col :: "nat \<Rightarrow> real list \<Rightarrow> real list" where
  "del_col j r = take j r @ drop (Suc j) r"

function exact_det :: "real list list \<Rightarrow> real" where
  "exact_det [] = 1"
| "exact_det (r # rs) =
     (\<Sum>j \<leftarrow> [0..<length r]. (- 1) ^ j * r ! j * exact_det (map (del_col j) rs))"
  by pat_completeness auto
termination
  by (relation "measure length") auto

definition replace_col :: "nat \<Rightarrow> real list \<Rightarrow> real list list \<Rightarrow> real list list" where
  "replace_col j b m = map (\<lambda>(r, e). r[j := e]) (zip m b)"

definition cramer_solve :: "real list list \<Rightarrow> real list \<Rightarrow> real list" where
  "cramer_solve m b = map (\<lambda>j. exact_det (replace_col j b m) / exact_det m) [0..<length m]"

definition mat_vec :: "real list list \<Rightarrow> real list \<Rightarrow> real list" where
  "mat_vec m x = map (\<lambda>r. \<Sum>(a, v) \<leftarrow> zip r x. a * v) m"

text \<open>
  A least-squares routine for coefficient arrays of full column rank, by the normal
  equations \<open>A\<^sup>T A x = A\<^sup>T b\<close>; it serves as a concrete instance of the library routine.
\<close>

definition columns :: "real list list \<Rightarrow> real list list" where
  "columns a = map (\<lambda>j. map (\<lambda>r. r ! j) a) [0..<length (hd a)]"

definition dot :: "real list \<Rightarrow> real list \<Rightarrow> real" where
  "dot u v = (\<Sum>(x, y) \<leftarrow> zip u v. x * y)"

definition lstsq_normal :: "real list list \<Rightarrow> real list \<Rightarrow> real list" where
  "lstsq_normal a b =
     cramer_solve (map (\<lambda>u. map (\<lambda>v. dot u v) (columns a)) (columns a))
                  (map (\<lambda>u. dot u b) (columns a))"

text \<open>
  Sample sorted matrices (coefficient columns, then the energy column). In
  \<open>sorted_regular\<close> both leading systems are solvable; in \<open>sorted_singular\<close> the
  leading \<open>2 \<times> 2\<close> system is singular and the \<open>3 \<times> 3\<close> system is not;
  \<open>sorted_scenario\<close> has four rows and two coefficient columns, the rows \<open>[1, 2]\<close>,
  \<open>[1, 1]\<close>, \<open>[1, 0]\<close>, \<open>[1, -1]\<close> with the energies \<open>-10\<close>, \<open>-9.5\<close>, \<open>-9\<close>, \<open>-8.5\<close>;
  \<open>sorted_single\<close> has one row; in \<open>sorted_dependent\<close> the only system is singular.
\<close>

definition sorted_regular :: "real list list" where
  "sorted_regular = [[1, 2, 0, - 10], [1, 1, 1, - 9], [1, 0, 0, - 8]]"

definition sorted_singular :: "real list list" where
  "sorted_singular = [[1, 2, 0, - 10], [1, 2, 1, - 9], [1, 0, 0, - 8]]"

definition sorted_scenario :: "real list list" where
  "sorted_scenario = [[1, 2, - 10], [1, 1, - 19 / 2], [1, 0, - 9], [1, - 1, - 17 / 2]]"

definition sorted_single :: "real list list" where
  "sorted_single = [[1, - 10]]"

definition sorted_dependent :: "real list list" where
  "sorted_dependent = [[1, 1, - 10], [1, 1, - 9]]"

text \<open>
  The order in which CPython 3 enumerates the set built by inserting \<open>2.0\<close>, \<open>2.828\<close>,
  \<open>3.464\<close> in this order: \<open>3.464\<close>, \<open>2.0\<close>, \<open>2.828\<close> (\<open>2.0\<close> and \<open>2.828\<close> hash to the same
  slot of the eight-slot table). Any other set is enumerated here in insertion order.
\<close>

definition cpython_order_sample :: "real list \<Rightarrow> real list" where
  "cpython_order_sample xs =
     (if remdups xs = [2, 2828 / 1000, 3464 / 1000] then [3464 / 1000, 2, 2828 / 1000]
      else remdups xs)"

text \<open>
  Neighbours of an atom in a cubic arrangement with spacing \<open>2.0\<close>, nearest first: two iron
  atoms in the first shell, a placeholder atom in the second, three iron atoms in the
  third, and an oxygen atom that is not magnetic.
\<close>

definition cubic_neighbours :: "(string \<times> real) list option" where
  "cubic_neighbours =
     Some [(''Fe'', 2), (''Fe'', 20004 / 10000), (''Po'', 28284 / 10000),
           (''Fe'', 34641 / 10000), (''Fe'', 3464 / 1000), (''Fe'', 34642 / 10000),
           (''O'', 3 / 2)]"

text \<open>A sorting routine that meets \<open>is_argsort\<close> on every input.\<close>

definition argsort_stable :: "real list \<Rightarrow> nat list" where
  "argsort_stable xs = sort_key (\<lambda>k. xs ! k) [0..<length xs]"

definition argsort_ok :: "(real list \<Rightarrow> nat list) \<Rightarrow> bool" where
  "argsort_ok argsort = (\<forall>xs. is_argsort xs (argsort xs))"

section \<open>Validator: results\<close>

lemma is_good_structure_present:
  "files_present f \<Longrightarrow>
   is_good_structure f r =
     Inr (convergence_status f \<and> \<not> \<bar>get_spin (outcar_tot f)\<bar> < (9 / 10) * r)"
  by (simp add: is_good_structure_def files_present_def convergence_status_def
      split: option.splits)

lemma classify_present:
  "\<forall>f \<in> set fs. files_present f \<Longrightarrow>
   classify r fs k =
     Inr (map (\<lambda>n. k + n) (filter (\<lambda>n. usable r (fs ! n)) [0..<length fs]),
          map (\<lambda>n. k + n) (filter (\<lambda>n. \<not> usable r (fs ! n)) [0..<length fs]))"
proof (induction fs arbitrary: k)
  case Nil
  then show ?case by simp
next
  case (Cons f fs)
  have up: "[0..<length (f # fs)] = 0 # map Suc [0..<length fs]"
    by (simp add: upt_conv_Cons map_Suc_upt del: upt_Suc)
  have g: "is_good_structure f r = Inr (usable r f)"
    using Cons.prems by (simp add: is_good_structure_present usable_def)
  have ih: "classify r fs (Suc k) =
     Inr (map (\<lambda>n. Suc k + n) (filter (\<lambda>n. usable r (fs ! n)) [0..<length fs]),
          map (\<lambda>n. Suc k + n) (filter (\<lambda>n. \<not> usable r (fs ! n)) [0..<length fs]))"
    using Cons.prems by (intro Cons.IH) simp
  show ?case
    unfolding up by (simp add: g ih filter_map o_def del: upt_Suc)
qed

text \<open>
  Claim C5, as the code has it. For a folder with all three files and a true convergence
  status, the validator answers \<open>False\<close> exactly when
  \<open>\<bar>moment\<bar> < 0.9 \<times> ref_magmom\<close>, the reference taken with its sign: no absolute
  value is applied to it. For a reference that is not negative this is the rule
  \<open>\<bar>moment\<bar> < 0.9 \<times> \<bar>reference\<bar>\<close>; for a positive reference a moment of magnitude half
  the reference is rejected and one of magnitude 0.95 of it is accepted, whatever the
  moment's sign; for a negative reference no converged configuration is rejected.
\<close>

theorem is_good_structure_threshold:
  assumes "files_present f" and "convergence_status f"
  shows "is_good_structure f r = Inr (\<not> \<bar>get_spin (outcar_tot f)\<bar> < (9 / 10) * r) \<and>
         (0 \<le> r \<longrightarrow>
            (is_good_structure f r = Inr False \<longleftrightarrow> \<bar>get_spin (outcar_tot f)\<bar> < (9 / 10) * \<bar>r\<bar>)) \<and>
         (0 < r \<and> \<bar>get_spin (outcar_tot f)\<bar> = (1 / 2) * r \<longrightarrow> is_good_structure f r = Inr False) \<and>
         (0 < r \<and> \<bar>get_spin (outcar_tot f)\<bar> = (95 / 100) * r \<longrightarrow> is_good_structure f r = Inr True) \<and>
         (r < 0 \<longrightarrow> is_good_structure f r = Inr True)"
proof -
  have e: "is_good_structure f r = Inr (\<not> \<bar>get_spin (outcar_tot f)\<bar> < (9 / 10) * r)"
    using assms by (simp add: is_good_structure_present)
  show ?thesis unfolding e by auto
qed

text \<open>
  The theorem at reference moment 2: a converged folder with moment \<open>-1\<close> (half the
  reference in magnitude) is rejected, one with moment \<open>1.9\<close> is accepted.
\<close>

theorem is_good_structure_threshold_witness:
  "files_present (cfg (- 1)) \<and> convergence_status (cfg (- 1)) \<and>
   is_good_structure (cfg (- 1)) 2 = Inr False \<and>
   is_good_structure (cfg (19 / 10)) 2 = Inr True"
  using is_good_structure_threshold [of "cfg (- 1)" 2]
    is_good_structure_threshold [of "cfg (19 / 10)" 2]
  by (simp add: cfg_def files_present_def convergence_status_def)

text \<open>
  Claim C5 as worded fails for a negative reference moment: with reference \<open>-2\<close>, the
  converged folder with moment \<open>-1 = 0.5 \<times> (-2)\<close> satisfies
  \<open>\<bar>-1\<bar> < 0.9 \<times> \<bar>-2\<bar>\<close> and is nevertheless classified valid.
\<close>

theorem negative_reference_counterexample:
  "convergence_status (cfg (- 1)) \<and> files_present (cfg (- 1)) \<and>
   (- 1 :: real) = (1 / 2) * (- 2) \<and> \<bar>- 1 :: real\<bar> < (9 / 10) * \<bar>- 2\<bar> \<and>
   is_good_structure (cfg (- 1)) (- 2) = Inr True"
  by (simp add: cfg_def files_present_def convergence_status_def is_good_structure_def)

text \<open>
  Claim C10. When the reference \<^verbatim>\<open>OUTCAR\<close> cannot be read, or lists no atom,
  \<^verbatim>\<open>get_spin\<close> yields 0 and the low-spin test never fires: among folders that hold
  their three files, \<^verbatim>\<open>find_good_structures\<close> puts exactly those with a true convergence
  status in the good list and the others in the bad list.
\<close>

theorem unreadable_reference_accepts_converged:
  assumes "ref_outcar = None \<or> ref_outcar = Some []"
    and "\<forall>f \<in> set folders. files_present f"
  shows "get_spin ref_outcar = 0 \<and>
         (\<forall>f \<in> set folders.
            is_good_structure f (get_spin ref_outcar) = Inr (convergence_status f)) \<and>
         find_good_structures ref_outcar folders =
           Inr (filter (\<lambda>n. convergence_status (folders ! n)) [0..<length folders],
                filter (\<lambda>n. \<not> convergence_status (folders ! n)) [0..<length folders])"
proof -
  have z: "get_spin ref_outcar = 0"
    using assms(1) by auto
  have u: "usable 0 f = convergence_status f" for f
    by (simp add: usable_def)
  have "\<forall>f \<in> set folders. is_good_structure f 0 = Inr (convergence_status f)"
    using assms(2) by (simp add: is_good_structure_present)
  moreover have "find_good_structures ref_outcar folders =
           Inr (filter (\<lambda>n. convergence_status (folders ! n)) [0..<length folders],
                filter (\<lambda>n. \<not> convergence_status (folders ! n)) [0..<length folders])"
    unfolding find_good_structures_def z using classify_present [OF assms(2), of 0 0]
    by (simp add: u)
  ultimately show ?thesis by (simp add: z)
qed

text \<open>
  The theorem on three folders and an unreadable reference: the converged ones, with
  moments \<open>0.01\<close> and \<open>-3\<close>, are good; the unconverged one is bad.
\<close>

theorem unreadable_reference_accepts_converged_witness:
  "find_good_structures None [cfg (1 / 100), cfg_unconverged 3, cfg (- 3)] = Inr ([0, 2], [1])"
proof -
  have p: "\<forall>f \<in> set [cfg (1 / 100), cfg_unconverged 3, cfg (- 3)]. files_present f"
    by (simp add: cfg_def cfg_unconverged_def files_present_def)
  have n: "[0..<length [cfg (1 / 100), cfg_unconverged 3, cfg (- 3)]] = [0, 1, 2]"
    by (simp add: upt_rec)
  show ?thesis
    using unreadable_reference_accepts_converged [OF _ p, of None]
    unfolding n by (simp add: cfg_def cfg_unconverged_def convergence_status_def)
qed

lemma collect_map_Inr: "collect (map Inr vs) = Inr vs"
  by (induction vs) auto

lemma collect_Inr_D: "collect rs = Inr vs \<Longrightarrow> rs = map Inr vs"
proof (induction rs arbitrary: vs)
  case Nil
  then show ?case by simp
next
  case (Cons r rs)
  then show ?case
    by (cases r) (auto split: sum.splits)
qed

lemma collect_Inr: "collect rs = Inr vs \<longleftrightarrow> rs = map Inr vs"
  using collect_map_Inr collect_Inr_D by blast

lemma append_ones_Inr:
  "append_ones nn = Inr M \<Longrightarrow> M = map (\<lambda>r. 1 # map real_of_int r) nn"
  by (auto simp: append_ones_def split: if_splits)

lemma scaled_row_of_ones:
  "nn_spin_matrix (map (\<lambda>r. 1 # map real_of_int r) nn) S =
   map (\<lambda>r. S * (S + 1) # map (\<lambda>c. real_of_int c * (S * (S + 1))) r) nn"
  by (simp add: nn_spin_matrix_def o_def algebra_simps)

text \<open>
  Claim C1, as the code has it. Let \<open>nn_lists\<close> be the neighbour lists of the \<open>N\<close> good
  structures. Whenever the assembler returns a matrix it has \<open>N\<close> rows, row \<open>i\<close> of
  \<^verbatim>\<open>nn_matrix\<close> is 1 followed by the first \<open>N - 1\<close> shell counts of structure \<open>i\<close>, and
  row \<open>i\<close> of the scaled matrix is that row with every entry multiplied by
  \<open>S(S + 1)\<close>, the leading one included: the scaled row starts with \<open>S(S + 1)\<close>. The
  assembler does return a matrix when there is at least one structure and every
  structure has at least \<open>N - 1\<close> shells.
\<close>

theorem nn_spin_matrix_rows:
  assumes "collect (map (\<lambda>p. get_nn_list set_iter p atom) poscars) = Inr nn_lists"
  shows "length nn_lists = length poscars \<and>
    (\<forall>M. nn_matrix_getter set_iter poscars atom = Inr M \<longrightarrow>
       length M = length poscars \<and>
       (\<forall>i < length poscars.
          M ! i = 1 # map real_of_int (take (length poscars - 1) (nn_lists ! i)) \<and>
          nn_spin_matrix M S ! i =
            S * (S + 1) #
            map (\<lambda>c. real_of_int c * (S * (S + 1))) (take (length poscars - 1) (nn_lists ! i)))) \<and>
    (poscars \<noteq> [] \<and> (\<forall>l \<in> set nn_lists. length poscars - 1 \<le> length l) \<longrightarrow>
       nn_matrix_getter set_iter poscars atom =
         Inr (map (\<lambda>l. 1 # map real_of_int (take (length poscars - 1) l)) nn_lists))"
proof -
  let ?N = "length poscars"
  let ?cut = "map (take (?N - 1)) nn_lists"
  have len: "length nn_lists = ?N"
    using assms by (metis collect_Inr length_map)
  have g: "nn_matrix_getter set_iter poscars atom = append_ones ?cut"
    using assms by (simp add: nn_matrix_getter_def)
  have rows: "length M = ?N \<and>
       (\<forall>i < ?N.
          M ! i = 1 # map real_of_int (take (?N - 1) (nn_lists ! i)) \<and>
          nn_spin_matrix M S ! i =
            S * (S + 1) #
            map (\<lambda>c. real_of_int c * (S * (S + 1))) (take (?N - 1) (nn_lists ! i)))"
    if "nn_matrix_getter set_iter poscars atom = Inr M" for M
  proof -
    have M: "M = map (\<lambda>r. 1 # map real_of_int r) ?cut"
      using that g append_ones_Inr [of ?cut M] by simp
    then have "nn_spin_matrix M S =
        map (\<lambda>r. S * (S + 1) # map (\<lambda>c. real_of_int c * (S * (S + 1))) r) ?cut"
      by (simp only: scaled_row_of_ones)
    with M len show ?thesis by simp
  qed
  have total: "nn_matrix_getter set_iter poscars atom =
         Inr (map (\<lambda>l. 1 # map real_of_int (take (?N - 1) l)) nn_lists)"
    if "poscars \<noteq> []" and "\<forall>l \<in> set nn_lists. ?N - 1 \<le> length l"
  proof -
    have "nn_lists \<noteq> []" using that(1) len by auto
    moreover have "\<forall>r \<in> set ?cut. length r = ?N - 1"
      using that(2) by auto
    moreover have "length (hd ?cut) = ?N - 1"
      using \<open>nn_lists \<noteq> []\<close> that(2) by (cases nn_lists) auto
    ultimately show ?thesis
      unfolding g append_ones_def by (simp add: o_def)
  qed
  show ?thesis using len rows total by blast
qed

text \<open>The two sample structures yield the shell-count vectors \<open>[2]\<close> and \<open>[-1]\<close>.\<close>

lemma get_A: "get_nn_list remdups poscar_A ''Fe'' = Inr [2]"
  by (simp add: get_nn_list_def count_nn_def magnetic_dist_lst_def neighbNum_def poscar_A_def
      py_round_def rint_def Let_def)

lemma get_B: "get_nn_list remdups poscar_B ''Fe'' = Inr [- 1]"
  by (simp add: get_nn_list_def count_nn_def magnetic_dist_lst_def neighbNum_def poscar_B_def
      py_round_def rint_def Let_def)

text \<open>The theorem on the two sample structures with spin 2.\<close>

theorem nn_spin_matrix_rows_witness:
  "nn_matrix_getter remdups [poscar_A, poscar_B] ''Fe'' = Inr [[1, 2], [1, - 1]] \<and>
   nn_spin_matrix [[1, 2], [1, - 1]] 2 ! 1 = [6, - 6]"
proof -
  have c: "collect (map (\<lambda>p. get_nn_list remdups p ''Fe'') [poscar_A, poscar_B]) = Inr [[2], [- 1]]"
    by (simp add: get_A get_B)
  have t: "nn_matrix_getter remdups [poscar_A, poscar_B] ''Fe'' = Inr [[1, 2], [1, - 1]]"
    using nn_spin_matrix_rows [OF c, of 2] by simp
  show ?thesis
    using nn_spin_matrix_rows [OF c, of 2] t by (auto simp: nth_Cons')
qed

text \<open>
  Claim C1 as worded fails: for the two sample structures and spin 2 the leading entry
  of every scaled row is \<open>6 = S(S + 1)\<close>, not 1.
\<close>

theorem leading_entry_scaled_counterexample:
  "nn_matrix_getter remdups [poscar_A, poscar_B] ''Fe'' = Inr [[1, 2], [1, - 1]] \<and>
   nn_spin_matrix [[1, 2], [1, - 1]] 2 = [[6, 12], [6, - 6]] \<and>
   hd (hd (nn_spin_matrix [[1, 2], [1, - 1]] 2)) \<noteq> 1"
  by (simp add: nn_matrix_getter_def append_ones_def nn_spin_matrix_def get_A get_B)

section \<open>Exact Solver: results\<close>

lemma linalg_det_square:
  "linalg_det np_det m = (if square m then Inr (np_det m) else Inl LinAlgError)"
  by (auto simp: linalg_det_def square_def)

text \<open>
  The loop returns exactly when every slice it meets is square, and then with the
  solutions of the slices whose computed determinant is nonzero; the only exception it
  can raise is the determinant's.
\<close>

lemma exact_loop_Inr:
  "exact_loop np_det np_solve m e sizes = Inr results \<longleftrightarrow>
     (\<forall>i \<in> set sizes. square (leading i m)) \<and> results = solutions np_det np_solve m e sizes"
proof (induction sizes arbitrary: results)
  case Nil
  then show ?case by (auto simp: solutions_def)
next
  case (Cons i sizes)
  show ?case
  proof (cases "square (leading i m)")
    case False
    then show ?thesis
      by (simp add: exchange_coupling_def linalg_det_square)
  next
    case True
    show ?thesis
    proof (cases "exact_loop np_det np_solve m e sizes")
      case (Inl err)
      then have "\<not> (\<forall>i \<in> set sizes. square (leading i m))"
        using Cons.IH by (metis Inl_Inr_False)
      with Inl True show ?thesis
        by (simp add: exchange_coupling_def linalg_det_square)
    next
      case (Inr rest)
      then have "(\<forall>i \<in> set sizes. square (leading i m)) \<and>
                 rest = solutions np_det np_solve m e sizes"
        using Cons.IH by simp
      with Inr True show ?thesis
        by (auto simp: exchange_coupling_def linalg_det_square solutions_def)
    qed
  qed
qed


lemma length_cramer_solve: "length (cramer_solve m b) = length m"
  by (simp add: cramer_solve_def)

lemma cramer_solve_shape: "solve_shape cramer_solve"
  by (simp add: solve_shape_def length_cramer_solve)

lemma length_leading: "length (leading i m) = min i (length m)"
  by (simp add: leading_def)

lemma square_leading:
  assumes "is_array m c" and "i \<le> length m" and "i \<le> c"
  shows "square (leading i m)"
  using assms by (auto simp: square_def leading_def is_array_def dest!: in_set_takeD)

lemma first_components_nonempty:
  "\<forall>x \<in> set xs. x \<noteq> [] \<Longrightarrow> first_components xs = Inr (map hd xs)"
  by (induction xs rule: first_components.induct) auto

lemma is_array_butlast: "is_array M (Suc c) \<Longrightarrow> is_array (map butlast M) c"
  by (auto simp: is_array_def)

lemma is_array_no_empty: "is_array M (Suc c) \<Longrightarrow> [] \<notin> set M"
  by (auto simp: is_array_def)

text \<open>The solver's result for a square slice within the row count has as many entries.\<close>

lemma length_solve_leading:
  assumes "solve_shape np_solve" and "square (leading i m)" and "i \<le> length m"
    and "length e = length m"
  shows "length (np_solve (leading i m) (take i e)) = i"
proof -
  have "length (take i e) = length (leading i m)"
    using assms(3,4) by (simp add: length_leading)
  then have "length (np_solve (leading i m) (take i e)) = length (leading i m)"
    using assms(1,2) by (simp add: solve_shape_def)
  then show ?thesis using assms(3) by (simp add: length_leading)
qed

lemma solutions_nonempty:
  assumes "solve_shape np_solve" and "length e = length m"
    and "\<forall>i \<in> set sizes. 2 \<le> i \<and> i \<le> length m \<and> square (leading i m)"
  shows "\<forall>x \<in> set (solutions np_det np_solve m e sizes). x \<noteq> []"
proof
  fix x assume "x \<in> set (solutions np_det np_solve m e sizes)"
  then obtain i where i: "i \<in> set sizes" and x: "x = np_solve (leading i m) (take i e)"
    by (auto simp: solutions_def)
  then have "length x = i"
    using assms by (simp add: length_solve_leading)
  moreover have "2 \<le> i" using i assms(3) by simp
  ultimately show "x \<noteq> []" by auto
qed

lemma j_vector_exact_unfold:
  "[] \<notin> set M \<Longrightarrow>
   j_vector_exact np_det np_solve M =
      (case exact_loop np_det np_solve (map butlast M) (map last M) [2..<Suc (length M)] of
         Inl e \<Rightarrow> Inl e
       | Inr results \<Rightarrow>
           (case first_components results of
              Inl e \<Rightarrow> Inl e
            | Inr E_geom_list \<Rightarrow> Inr (E_geom_list, map tl results)))"
  by (simp add: j_vector_exact_def Let_def del: upt_Suc)

text \<open>Every slice of the loop is square exactly when the array is wide enough.\<close>

lemma all_slices_square:
  assumes "is_array m c"
  shows "(\<forall>i \<in> set [2..<Suc (length m)]. square (leading i m)) \<longleftrightarrow>
         (length m < 2 \<or> length m \<le> c)"
proof
  assume all: "\<forall>i \<in> set [2..<Suc (length m)]. square (leading i m)"
  show "length m < 2 \<or> length m \<le> c"
  proof (rule disjCI)
    assume wide: "\<not> length m \<le> c"
    show "length m < 2"
    proof (rule ccontr)
      assume two: "\<not> length m < 2"
      then have "square (leading (length m) m)" using all by auto
      moreover obtain r where r: "r \<in> set m" using two by (cases m) auto
      then have "take (length m) r \<in> set (leading (length m) m)" by (auto simp: leading_def)
      ultimately have "length (take (length m) r) = length m"
        by (auto simp: square_def length_leading)
      moreover have "length r = c" using assms r by (auto simp: is_array_def)
      ultimately show False using wide by auto
    qed
  qed
next
  assume "length m < 2 \<or> length m \<le> c"
  then show "\<forall>i \<in> set [2..<Suc (length m)]. square (leading i m)"
    using assms by (auto simp del: upt_Suc intro!: square_leading [where c = c])
qed

text \<open>When the exact solver returns, and what.\<close>

lemma j_vector_exact_Inr:
  assumes "is_array M (Suc c)" and "solve_shape np_solve"
  shows "j_vector_exact np_det np_solve M = Inr (E, J) \<longleftrightarrow>
     (length M < 2 \<or> length M \<le> c) \<and>
     E = map hd (solutions np_det np_solve (map butlast M) (map last M) [2..<Suc (length M)]) \<and>
     J = map tl (solutions np_det np_solve (map butlast M) (map last M) [2..<Suc (length M)])"
proof -
  let ?m = "map butlast M" and ?e = "map last M" and ?N = "length M"
  let ?sols = "solutions np_det np_solve ?m ?e [2..<Suc ?N]"
  have arr: "is_array ?m c" using assms(1) by (rule is_array_butlast)
  have ne: "[] \<notin> set M" using assms(1) by (rule is_array_no_empty)
  note unfold = j_vector_exact_unfold [OF ne, of np_det np_solve]
  have sq: "(\<forall>i \<in> set [2..<Suc ?N]. square (leading i ?m)) \<longleftrightarrow> (?N < 2 \<or> ?N \<le> c)"
    using all_slices_square [OF arr] by simp
  show ?thesis
  proof (cases "exact_loop np_det np_solve ?m ?e [2..<Suc ?N]")
    case (Inl err)
    then have "\<not> (\<forall>i \<in> set [2..<Suc ?N]. square (leading i ?m))"
      using exact_loop_Inr [of np_det np_solve ?m ?e "[2..<Suc ?N]"] by (metis Inl_Inr_False)
    with Inl show ?thesis unfolding unfold sq by simp
  next
    case (Inr results)
    then have all: "\<forall>i \<in> set [2..<Suc ?N]. square (leading i ?m)" and res: "results = ?sols"
      using exact_loop_Inr [of np_det np_solve ?m ?e "[2..<Suc ?N]" results] by auto
    have "\<forall>x \<in> set ?sols. x \<noteq> []"
      using assms(2) all by (intro solutions_nonempty) (auto simp del: upt_Suc)
    then have fc: "first_components ?sols = Inr (map hd ?sols)"
      by (rule first_components_nonempty)
    from Inr res fc all show ?thesis unfolding unfold sq by auto
  qed
qed





text \<open>The sample matrices and their solutions in exact arithmetic.\<close>

lemma regular_array: "is_array sorted_regular (Suc 3)"
  by (simp add: is_array_def sorted_regular_def)


lemma scenario_array: "is_array sorted_scenario (Suc 2)"
  by (simp add: is_array_def sorted_scenario_def)


lemma solutions_regular:
  "solutions exact_det cramer_solve (map butlast sorted_regular) (map last sorted_regular)
     [2..<Suc (length sorted_regular)] = [[- 8, - 1], [- 8, - 1, 0]]"
  by (simp add: solutions_def sorted_regular_def leading_def cramer_solve_def replace_col_def
      del_col_def upt_rec)




text \<open>The entries of a returned result.\<close>

lemma j_vector_exact_entries:
  assumes "is_array M (Suc c)" and "solve_shape np_solve"
    and "j_vector_exact np_det np_solve M = Inr (E, J)"
  shows "length E = length J \<and>
         sorted_wrt (<) (map length J) \<and>
         (\<forall>k < length J.
            \<exists>i. 2 \<le> i \<and> i \<le> length M \<and> np_det (leading i (map butlast M)) \<noteq> 0 \<and>
                length (J ! k) = i - 1 \<and>
                E ! k # J ! k = np_solve (leading i (map butlast M)) (take i (map last M)))"
proof -
  let ?m = "map butlast M" and ?e = "map last M" and ?N = "length M"
  let ?P = "\<lambda>i. np_det (leading i ?m) \<noteq> 0"
  let ?f = "\<lambda>i. np_solve (leading i ?m) (take i ?e)"
  define sizes where "sizes = filter ?P [2..<Suc ?N]"
  define sols where "sols = solutions np_det np_solve ?m ?e [2..<Suc ?N]"
  have arr: "is_array ?m c" using assms(1) by (rule is_array_butlast)
  have shape: "?N < 2 \<or> ?N \<le> c" and E: "E = map hd sols" and J: "J = map tl sols"
    using j_vector_exact_Inr [OF assms(1,2), of np_det E J] assms(3) by (auto simp: sols_def)
  have mem: "2 \<le> i \<and> i \<le> ?N \<and> ?P i" if "i \<in> set sizes" for i
    using that by (auto simp: sizes_def simp del: upt_Suc)
  have sols: "sols = map ?f sizes"
    by (simp only: sols_def sizes_def solutions_def)
  have len_f: "length (?f i) = i" if "i \<in> set sizes" for i
  proof -
    have i: "2 \<le> i" "i \<le> ?N" using mem [OF that] by auto
    then have "?N \<le> c" using shape by auto
    then have "square (leading i ?m)"
      by (intro square_leading [OF arr]) (use i in auto)
    then show ?thesis
      by (intro length_solve_leading [OF assms(2)]) (use i in auto)
  qed
  have mapJ: "map length J = map (\<lambda>i. i - 1) sizes"
    by (simp add: J sols len_f)
  have "sorted_wrt (<) [2..<Suc ?N]"
    by (rule sorted_wrt_upt)
  then have "sorted_wrt (<) sizes"
    unfolding sizes_def by (rule sorted_wrt_filter)
  then have "sorted_wrt (\<lambda>a b. a - 1 < b - 1) sizes"
    by (rule sorted_wrt_mono_rel [rotated]) (use mem in fastforce)
  then have incr: "sorted_wrt (<) (map length J)"
    unfolding mapJ by (simp add: sorted_wrt_map)
  have entry: "\<exists>i. 2 \<le> i \<and> i \<le> ?N \<and> ?P i \<and> length (J ! k) = i - 1 \<and> E ! k # J ! k = ?f i"
    if "k < length J" for k
  proof -
    have k: "k < length sizes" using that by (simp add: J sols)
    then have in_sizes: "sizes ! k \<in> set sizes" by (rule nth_mem)
    note rng = mem [OF in_sizes]
    have lx: "length (?f (sizes ! k)) = sizes ! k"
      by (rule len_f [OF in_sizes])
    then have "?f (sizes ! k) \<noteq> []" using rng by auto
    then have "hd (?f (sizes ! k)) # tl (?f (sizes ! k)) = ?f (sizes ! k)" by simp
    moreover have "E ! k = hd (?f (sizes ! k))" "J ! k = tl (?f (sizes ! k))"
      using k by (simp_all add: E J sols)
    ultimately show ?thesis using rng lx by (intro exI [of _ "sizes ! k"]) simp
  qed
  have "length E = length J" by (simp add: E J)
  with incr entry show ?thesis by blast
qed

text \<open>
  Claim C7. Whenever the exact solver returns the pair \<open>(E, J)\<close>, the two lists are
  parallel, the lengths of the coupling vectors in \<open>J\<close> are strictly increasing, and
  every entry belongs to a size \<open>i\<close> between 2 and \<open>N\<close> with nonzero computed determinant:
  its coupling vector has length exactly \<open>i - 1\<close>, and the geometric energy followed by
  the coupling vector is the solver's result for the leading \<open>i \<times> i\<close> system, so the
  geometric energy is the first solution component. The library's solver is any routine
  that returns one entry per equation, the determinant routine is arbitrary.
\<close>

theorem exact_solver_lengths:
  assumes "is_array M (Suc c)" and "solve_shape np_solve"
    and "j_vector_exact np_det np_solve M = Inr (E, J)"
  shows "length E = length J \<and>
         sorted_wrt (<) (map length J) \<and>
         (\<forall>k < length J.
            \<exists>i. 2 \<le> i \<and> i \<le> length M \<and> np_det (leading i (map butlast M)) \<noteq> 0 \<and>
                length (J ! k) = i - 1 \<and>
                E ! k # J ! k = np_solve (leading i (map butlast M)) (take i (map last M)))"
  using assms by (rule j_vector_exact_entries)

text \<open>
  The theorem on \<open>sorted_regular\<close> in exact arithmetic, where both sizes are solved:
  coupling vectors of lengths 1 and 2.
\<close>

theorem exact_solver_lengths_witness:
  "is_array sorted_regular (Suc 3) \<and> solve_shape cramer_solve \<and>
   j_vector_exact exact_det cramer_solve sorted_regular = Inr ([- 8, - 8], [[- 1], [- 1, 0]]) \<and>
   sorted_wrt (<) (map length [[- 1], [- 1, 0 :: real]])"
proof -
  have r: "j_vector_exact exact_det cramer_solve sorted_regular =
           Inr ([- 8, - 8], [[- 1], [- 1, 0]])"
    using j_vector_exact_Inr [OF regular_array cramer_solve_shape, of exact_det
        "[- 8, - 8]" "[[- 1], [- 1, 0]]"]
    unfolding solutions_regular by (simp add: sorted_regular_def)
  show ?thesis
    using exact_solver_lengths [OF regular_array cramer_solve_shape r]
      regular_array cramer_solve_shape r
    by simp
qed

text \<open>
  In exact arithmetic, with the determinant by expansion and the solution by Cramer's
  rule, the statement reads as follows.
\<close>

lemma lengths_in_exact_arithmetic:
  assumes "is_array M (Suc c)" and "j_vector_exact exact_det cramer_solve M = Inr (E, J)"
  shows "length E = length J \<and>
         sorted_wrt (<) (map length J) \<and>
         (\<forall>k < length J.
            \<exists>i. 2 \<le> i \<and> i \<le> length M \<and> exact_det (leading i (map butlast M)) \<noteq> 0 \<and>
                length (J ! k) = i - 1 \<and>
                E ! k # J ! k = cramer_solve (leading i (map butlast M)) (take i (map last M)))"
  using assms(1) cramer_solve_shape assms(2) by (rule j_vector_exact_entries)

text \<open>Cramer's rule does solve the system; shown here for two unknowns.\<close>

lemma cramer_solve_2x2:
  assumes "exact_det [[a, b], [c, d]] \<noteq> 0"
  shows "mat_vec [[a, b], [c, d]] (cramer_solve [[a, b], [c, d]] [e, f]) = [e, f]"
proof -
  define D where "D = a * d - b * c"
  have d: "exact_det [[a, b], [c, d]] = D"
    by (simp add: del_col_def upt_rec D_def)
  then have nz: "D \<noteq> 0" using assms by simp
  have s: "cramer_solve [[a, b], [c, d]] [e, f] = [(e * d - b * f) / D, (a * f - e * c) / D]"
    by (simp add: cramer_solve_def replace_col_def del_col_def upt_rec D_def)
  have n1: "a * (e * d - b * f) + b * (a * f - e * c) = e * D"
    by (simp add: D_def algebra_simps)
  have n2: "c * (e * d - b * f) + d * (a * f - e * c) = f * D"
    by (simp add: D_def algebra_simps)
  have "a * ((e * d - b * f) / D) + b * ((a * f - e * c) / D) =
        (a * (e * d - b * f) + b * (a * f - e * c)) / D"
    by (simp add: add_divide_distrib)
  also have "\<dots> = e" unfolding n1 using nz by simp
  finally have r1: "a * ((e * d - b * f) / D) + b * ((a * f - e * c) / D) = e" .
  have "c * ((e * d - b * f) / D) + d * ((a * f - e * c) / D) =
        (c * (e * d - b * f) + d * (a * f - e * c)) / D"
    by (simp add: add_divide_distrib)
  also have "\<dots> = f" unfolding n2 using nz by simp
  finally have r2: "c * ((e * d - b * f) / D) + d * ((a * f - e * c) / D) = f" .
  show ?thesis
    unfolding s mat_vec_def using r1 r2 by simp
qed

text \<open>The solutions found for the two sample matrices satisfy their systems.\<close>

lemma solutions_sample_check:
  "mat_vec (leading 3 (map butlast sorted_singular)) [- 8, - 1, 1] =
     take 3 (map last sorted_singular) \<and>
   mat_vec (leading 2 (map butlast sorted_regular)) [- 8, - 1] =
     take 2 (map last sorted_regular) \<and>
   mat_vec (leading 3 (map butlast sorted_regular)) [- 8, - 1, 0] =
     take 3 (map last sorted_regular)"
  by (simp add: mat_vec_def leading_def sorted_singular_def sorted_regular_def)

section \<open>Least-Squares Solver: results\<close>

lemma lstsq_normal_shape: "lstsq_shape lstsq_normal"
proof -
  have "length (lstsq_normal a b) = c" if "a \<noteq> []" and "is_array a c" for a c b
  proof -
    have "length (lstsq_normal a b) = length (hd a)"
      by (simp add: lstsq_normal_def cramer_solve_def columns_def)
    also have "\<dots> = c" using that by (cases a) (auto simp: is_array_def)
    finally show ?thesis .
  qed
  then show ?thesis by (simp add: lstsq_shape_def)
qed

lemma j_vector_lstsq_unfold:
  "[] \<notin> set M \<Longrightarrow>
   j_vector_lstsq lstsq M =
     (case first_components
             (map (\<lambda>i. lstsq (map (take i) (map butlast M)) (map last M)) [2..<Suc (length M)]) of
        Inl e \<Rightarrow> Inl e
      | Inr E_geom_list \<Rightarrow>
          Inr (E_geom_list,
               map tl (map (\<lambda>i. lstsq (map (take i) (map butlast M)) (map last M))
                           [2..<Suc (length M)])))"
  by (simp add: j_vector_lstsq_def Let_def del: upt_Suc)

text \<open>The result of the least-squares solver, column count by column count.\<close>

lemma j_vector_lstsq_result:
  assumes "is_array M (Suc c)" and "1 \<le> c" and "lstsq_shape lstsq"
  shows "\<exists>E J. j_vector_lstsq lstsq M = Inr (E, J) \<and>
           length E = length M - 1 \<and> length J = length M - 1 \<and>
           (\<forall>i \<in> {2..length M}.
              E ! (i - 2) # J ! (i - 2) = lstsq (map (take i) (map butlast M)) (map last M) \<and>
              length (J ! (i - 2)) = min i c - 1 \<and>
              (i \<le> c \<longrightarrow> length (J ! (i - 2)) = i - 1))"
proof -
  let ?m = "map butlast M" and ?e = "map last M" and ?N = "length M"
  let ?f = "\<lambda>i. lstsq (map (take i) ?m) ?e"
  define xs where "xs = map ?f [2..<Suc ?N]"
  have arr: "is_array ?m c" using assms(1) by (rule is_array_butlast)
  have len_f: "length (?f i) = min i c" if "2 \<le> i" and "i \<le> ?N" for i
  proof -
    have "map (take i) ?m \<noteq> []" using that by (cases M) auto
    moreover have "is_array (map (take i) ?m) (min i c)"
      using arr by (auto simp: is_array_def)
    ultimately show ?thesis using assms(3) by (simp add: lstsq_shape_def)
  qed
  have ne: "\<forall>x \<in> set xs. x \<noteq> []"
  proof
    fix x assume "x \<in> set xs"
    then obtain i where "2 \<le> i" "i \<le> ?N" "x = ?f i"
      by (auto simp: xs_def simp del: upt_Suc)
    then have "length x = min i c" using len_f by simp
    then show "x \<noteq> []" using \<open>2 \<le> i\<close> assms(2) by auto
  qed
  have ret: "j_vector_lstsq lstsq M = Inr (map hd xs, map tl xs)"
    using j_vector_lstsq_unfold [OF is_array_no_empty [OF assms(1)], of lstsq]
      first_components_nonempty [OF ne]
    by (simp add: xs_def del: upt_Suc)
  have lxs: "length xs = ?N - 1"
    by (simp add: xs_def del: upt_Suc)
  have entry: "map hd xs ! (i - 2) # map tl xs ! (i - 2) = ?f i \<and>
               length (map tl xs ! (i - 2)) = min i c - 1 \<and>
               (i \<le> c \<longrightarrow> length (map tl xs ! (i - 2)) = i - 1)"
    if "i \<in> {2..?N}" for i
  proof -
    have i: "2 \<le> i" "i \<le> ?N" using that by auto
    then have k: "i - 2 < length [2..<Suc ?N]" by auto
    have "[2..<Suc ?N] ! (i - 2) = i" using i by (simp add: nth_upt del: upt_Suc)
    then have x: "xs ! (i - 2) = ?f i"
      using k unfolding xs_def by (simp del: upt_Suc)
    have l: "length (?f i) = min i c" using i by (rule len_f)
    then have "?f i \<noteq> []" using i assms(2) by auto
    then have "hd (?f i) # tl (?f i) = ?f i" by simp
    moreover have "i - 2 < length xs" using k by (simp add: xs_def del: upt_Suc)
    ultimately show ?thesis using x l by simp
  qed
  show ?thesis
    using ret lxs entry by (intro exI [of _ "map hd xs"] exI [of _ "map tl xs"]) simp
qed

text \<open>
  Claim C6, as the code has it. Let the sorted matrix have \<open>N\<close> rows and \<open>c \<ge> 1\<close>
  coefficient columns, and let the least-squares routine return one entry per column.
  Then the least-squares solver returns one solution for every column count \<open>i\<close> from 2
  to \<open>N\<close>, \<open>N - 1\<close> in all, none skipped. The solution for \<open>i\<close> is what the routine returns
  for all \<open>N\<close> rows cut to their leading \<open>i\<close> columns (all \<open>c\<close> columns when \<open>c < i\<close>) and
  all \<open>N\<close> energies; its first component is the geometric energy and the rest the
  coupling vector, of \<open>min i c - 1\<close> components: \<open>i - 1\<close> exactly when the matrix has at
  least \<open>i\<close> coefficient columns.
\<close>

theorem lstsq_solver_every_size:
  assumes "is_array M (Suc c)" and "1 \<le> c" and "lstsq_shape lstsq"
  shows "\<exists>E J. j_vector_lstsq lstsq M = Inr (E, J) \<and>
           length E = length M - 1 \<and> length J = length M - 1 \<and>
           (\<forall>i \<in> {2..length M}.
              E ! (i - 2) # J ! (i - 2) = lstsq (map (take i) (map butlast M)) (map last M) \<and>
              length (J ! (i - 2)) = min i c - 1 \<and>
              (i \<le> c \<longrightarrow> length (J ! (i - 2)) = i - 1))"
  using assms by (rule j_vector_lstsq_result)

lemma lstsq_regular:
  "j_vector_lstsq lstsq_normal sorted_regular = Inr ([- 8, - 8], [[- 1], [- 1, 0]])"
  by (simp add: j_vector_lstsq_def sorted_regular_def lstsq_normal_def columns_def dot_def
      cramer_solve_def replace_col_def del_col_def upt_rec Let_def)

text \<open>The theorem on \<open>sorted_regular\<close> with the normal-equations routine.\<close>

theorem lstsq_solver_every_size_witness:
  "is_array sorted_regular (Suc 3) \<and> (1::nat) \<le> 3 \<and> lstsq_shape lstsq_normal \<and>
   j_vector_lstsq lstsq_normal sorted_regular = Inr ([- 8, - 8], [[- 1], [- 1, 0]])"
  using lstsq_solver_every_size [OF regular_array _ lstsq_normal_shape]
    regular_array lstsq_normal_shape lstsq_regular
  by simp

text \<open>
  Claim C6 as worded fails on \<open>sorted_scenario\<close>, four configurations with two
  coefficient columns: for the column counts 3 and 4 the matrix has no third or fourth
  column, the fit is over its two columns again and the coupling vector has one
  component, not \<open>i - 1\<close>. No routine that returns one entry per column gives two
  components at \<open>i = 3\<close>.
\<close>

lemma lstsq_scenario:
  "j_vector_lstsq lstsq_normal sorted_scenario =
     Inr ([- 9, - 9, - 9], [[- 1 / 2], [- 1 / 2], [- 1 / 2]])"
  by (simp add: j_vector_lstsq_def sorted_scenario_def lstsq_normal_def columns_def dot_def
      cramer_solve_def replace_col_def del_col_def upt_rec Let_def)

theorem narrow_lstsq_counterexample:
  "j_vector_lstsq lstsq_normal sorted_scenario =
     Inr ([- 9, - 9, - 9], [[- 1 / 2], [- 1 / 2], [- 1 / 2]]) \<and>
   length ([[- 1 / 2], [- 1 / 2], [- 1 / 2 :: real]] ! (3 - 2)) \<noteq> 3 - 1 \<and>
   \<not> (\<exists>lstsq E J. lstsq_shape lstsq \<and> j_vector_lstsq lstsq sorted_scenario = Inr (E, J) \<and>
                    length (J ! (3 - 2)) = 3 - 1)"
proof -
  have no: "\<not> (lstsq_shape lstsq \<and> j_vector_lstsq lstsq sorted_scenario = Inr (E, J) \<and>
                length (J ! (3 - 2)) = 3 - 1)" for lstsq E J
  proof
    assume h: "lstsq_shape lstsq \<and> j_vector_lstsq lstsq sorted_scenario = Inr (E, J) \<and>
               length (J ! (3 - 2)) = 3 - 1"
    have three: "(3::nat) \<in> {2..length sorted_scenario}"
      by (simp add: sorted_scenario_def)
    obtain E' J' where r: "j_vector_lstsq lstsq sorted_scenario = Inr (E', J')"
      and l: "\<forall>i \<in> {2..length sorted_scenario}. length (J' ! (i - 2)) = min i 2 - 1"
      using j_vector_lstsq_result [OF scenario_array _ conjunct1 [OF h]] by auto
    from r h have "J' = J" by simp
    moreover have "length (J' ! (3 - 2)) = min 3 2 - 1"
      using l three by blast
    ultimately show False using h by simp
  qed
  show ?thesis
    using no by (simp add: lstsq_scenario)
qed

section \<open>Fewer than two configurations\<close>

text \<open>
  Claim C9, as the code has it. On a sorted matrix with fewer than two rows (and at least
  one column) neither solver raises: both loops run over the empty range and both return
  the pair of empty lists. With no good structure at all the run stops before the
  solvers, in the assembler, where \<^verbatim>\<open>np.append\<close> raises \<^verbatim>\<open>ValueError\<close>.
\<close>

theorem underdetermined_returns_empty:
  assumes "length M < 2" and "[] \<notin> set M"
  shows "j_vector_exact np_det np_solve M = Inr ([], []) \<and>
         j_vector_lstsq lstsq M = Inr ([], []) \<and>
         nn_matrix_getter set_iter [] magnetic_atom = Inl ValueError"
  using assms
  by (simp add: j_vector_exact_def j_vector_lstsq_def nn_matrix_getter_def append_ones_def Let_def)

text \<open>The theorem on the one-row matrix \<open>sorted_single\<close>.\<close>

theorem underdetermined_returns_empty_witness:
  "length sorted_single < 2 \<and> [] \<notin> set sorted_single \<and>
   j_vector_exact exact_det cramer_solve sorted_single = Inr ([], []) \<and>
   j_vector_lstsq lstsq_normal sorted_single = Inr ([], [])"
  using underdetermined_returns_empty [of sorted_single exact_det cramer_solve lstsq_normal]
  by (simp add: sorted_single_def)

text \<open>
  Claim C9 as worded fails: with one configuration both solvers return the empty result
  without an error, and that result is the one the exact solver returns for
  \<open>sorted_dependent\<close>, two configurations whose only system is singular.
\<close>

theorem underdetermined_no_error_counterexample:
  "j_vector_exact exact_det cramer_solve sorted_single = Inr ([], []) \<and>
   j_vector_lstsq lstsq_normal sorted_single = Inr ([], []) \<and>
   j_vector_exact exact_det cramer_solve sorted_dependent = Inr ([], []) \<and>
   exact_det (leading 2 (map butlast sorted_dependent)) = 0"
  by (simp add: j_vector_exact_def j_vector_lstsq_def sorted_single_def sorted_dependent_def
      exchange_coupling_def linalg_det_def leading_def del_col_def upt_rec Let_def)

section \<open>Neighbor-Shell Vectorizer: results\<close>

text \<open>Both enumerations used on sample data list every value of the set once.\<close>

lemma remdups_set_iter_ok: "set_iter_ok remdups"
  by (simp add: set_iter_ok_def)

lemma cpython_order_sample_ok: "set_iter_ok cpython_order_sample"
proof -
  have "distinct (cpython_order_sample xs) \<and> set (cpython_order_sample xs) = set xs" for xs
  proof (cases "remdups xs = [2, 2828 / 1000, 3464 / 1000]")
    case True
    then have "set (remdups xs) = {2, 2828 / 1000, 3464 / 1000}" by simp
    then have "set xs = {2, 2828 / 1000, 3464 / 1000}" by simp
    with True show ?thesis by (auto simp: cpython_order_sample_def)
  next
    case False
    then show ?thesis by (simp add: cpython_order_sample_def)
  qed
  then show ?thesis by (simp add: set_iter_ok_def)
qed

text \<open>The keys of the dictionary, hence the entries of the vector, come in the set's order.\<close>

lemma count_nn_order:
  "count_nn set_iter (Some a) mags = Some d \<Longrightarrow>
   map fst d = set_iter (map snd (magnetic_dist_lst a mags))"
  by (auto simp: count_nn_def Let_def o_def)

text \<open>
  Claim C4 asks for the shells in ascending distance. The code never sorts: on
  \<open>cubic_neighbours\<close>, with the order in which CPython enumerates the set of the three
  rounded distances, the dictionary's keys are \<open>3.464\<close>, \<open>2.0\<close>, \<open>2.828\<close> and the emitted
  vector is \<open>[3, 2, -1]\<close>; in ascending distance it would be \<open>[2, -1, 3]\<close>.
\<close>

theorem shells_follow_set_order:
  "count_nn cpython_order_sample cubic_neighbours [''Fe'', ''Po''] =
     Some [(3464 / 1000, 3), (2, 2), (2828 / 1000, - 1)] \<and>
   get_nn_list cpython_order_sample cubic_neighbours ''Fe'' = Inr [3, 2, - 1] \<and>
   \<not> sorted [3464 / 1000, 2, 2828 / 1000 :: real]"
  by (simp add: get_nn_list_def count_nn_def magnetic_dist_lst_def neighbNum_def
      cubic_neighbours_def cpython_order_sample_def py_round_def rint_def Let_def)

section \<open>Critical-Temperature Estimator: results\<close>


text \<open>Rounding keeps a value that is not negative so.\<close>

lemma rint_nonneg: "0 \<le> x \<Longrightarrow> 0 \<le> rint x"
proof -
  assume "0 \<le> x"
  then have "0 \<le> \<lfloor>x\<rfloor>" by simp
  then show ?thesis by (auto simp: rint_def Let_def)
qed

lemma py_round_nonneg: "0 \<le> x \<Longrightarrow> 0 \<le> py_round x n"
  by (simp add: py_round_def rint_nonneg)

lemma sum_list_zip_mult:
  "length xs = length ys \<Longrightarrow>
   sum_list (map (\<lambda>(x, y). x * y) (zip xs ys)) = (\<Sum>m < length xs. xs ! m * (ys ! m :: real))"
  by (simp add: sum_list_sum_nth atLeast0LessThan)

lemma T_c_nonneg: "T_c j z = Inr t \<Longrightarrow> 0 \<le> t"
  by (auto simp: T_c_def Let_def split: sum.splits)

lemma T_c_formula:
  assumes "length j \<le> length z"
  shows "T_c j z = Inr \<bar>2 * pi * (\<Sum>m < length j. j ! m * real_of_int (z ! m)) / (3 * k_B)\<bar>"
proof -
  let ?zt = "map real_of_int (take (length j) z)"
  have l: "length j = length ?zt" using assms by simp
  have "sum_list (map (\<lambda>(x, y). x * y) (zip j ?zt)) = (\<Sum>m < length j. j ! m * ?zt ! m)"
    using l by (rule sum_list_zip_mult)
  also have "\<dots> = (\<Sum>m < length j. j ! m * real_of_int (z ! m))"
    using assms by (intro sum.cong) auto
  finally show ?thesis using l by (simp add: T_c_def broadcast_mul_def Let_def)
qed

text \<open>
  Claim C3. When the reference vector \<open>z\<close> has at least as many entries as each coupling
  vector, \<^verbatim>\<open>Tc_list_getter\<close> returns, for every coupling vector \<open>J\<close> of length \<open>k\<close>, the value
  \<open>\<bar>2\<pi> \<times> \<Sum>\<^sub>m\<^sub><\<^sub>k J\<^sub>m z\<^sub>m / (3 k\<^sub>B)\<bar>\<close> rounded to one decimal place, \<open>z\<close> being read up to
  its first \<open>k\<close> entries only. Whatever the inputs, every value the function returns is
  non-negative, and there is one per coupling vector.
\<close>

theorem Tc_list_formula:
  "((\<forall>J \<in> set j_vector_list. length J \<le> length z) \<longrightarrow>
      Tc_list_getter j_vector_list z =
        Inr (map (\<lambda>J. py_round
                        \<bar>2 * pi * (\<Sum>m < length J. J ! m * real_of_int (z ! m)) / (3 * k_B)\<bar> 1)
                 j_vector_list)) \<and>
   (\<forall>ts. Tc_list_getter j_vector_list z = Inr ts \<longrightarrow>
      length ts = length j_vector_list \<and> (\<forall>t \<in> set ts. 0 \<le> t))"
proof (intro conjI impI allI)
  assume a: "\<forall>J \<in> set j_vector_list. length J \<le> length z"
  define F where
    "F = (\<lambda>J. \<bar>2 * pi * (\<Sum>m < length J. J ! m * real_of_int (z ! m)) / (3 * k_B)\<bar>)"
  have "map (\<lambda>J. T_c J z) j_vector_list = map (\<lambda>J. Inr (F J)) j_vector_list"
    by (rule map_cong [OF refl]) (use a in \<open>simp add: T_c_formula F_def\<close>)
  also have "\<dots> = map Inr (map F j_vector_list)"
    by (simp add: o_def)
  finally have eq: "map (\<lambda>J. T_c J z) j_vector_list = map Inr (map F j_vector_list)" .
  have "Tc_list_getter j_vector_list z = Inr (map (\<lambda>t. py_round t 1) (map F j_vector_list))"
    unfolding Tc_list_getter_def eq collect_map_Inr by simp
  then show "Tc_list_getter j_vector_list z =
        Inr (map (\<lambda>J. py_round
                        \<bar>2 * pi * (\<Sum>m < length J. J ! m * real_of_int (z ! m)) / (3 * k_B)\<bar> 1)
                 j_vector_list)"
    by (simp only: map_map o_def F_def)
next
  fix ts assume r: "Tc_list_getter j_vector_list z = Inr ts"
  then obtain us where c: "collect (map (\<lambda>J. T_c J z) j_vector_list) = Inr us"
    and ts: "ts = map (\<lambda>t. py_round t 1) us"
    by (auto simp: Tc_list_getter_def split: sum.splits)
  from c have m: "map (\<lambda>J. T_c J z) j_vector_list = map Inr us"
    by (rule collect_Inr_D)
  then have "length us = length j_vector_list"
    by (metis length_map)
  then show "length ts = length j_vector_list" by (simp add: ts)
  have "0 \<le> u" if "u \<in> set us" for u
  proof -
    from that obtain n where n: "n < length us" "us ! n = u"
      by (auto simp: in_set_conv_nth)
    then have "T_c (j_vector_list ! n) z = Inr u"
      using m \<open>length us = length j_vector_list\<close>
      by (metis nth_map)
    then show ?thesis by (rule T_c_nonneg)
  qed
  then show "\<forall>t \<in> set ts. 0 \<le> t"
    by (auto simp: ts intro: py_round_nonneg)
qed

text \<open>
  The theorem on coupling vectors of lengths 1 and 2, one with a negative sum, and a
  reference vector of three shells: the third entry of \<open>z\<close> is never read.
\<close>

theorem Tc_list_formula_witness:
  "Tc_list_getter [[1 / 2], [- 1 / 2, 1 / 4]] [2, 6, 12] =
     Inr [py_round \<bar>2 * pi * (1 / 2 * 2) / (3 * k_B)\<bar> 1,
          py_round \<bar>2 * pi * (- 1 / 2 * 2 + 1 / 4 * 6) / (3 * k_B)\<bar> 1]"
proof -
  have h: "\<forall>J \<in> set [[1 / 2], [- 1 / 2, 1 / 4 :: real]]. length J \<le> length [2, 6, 12 :: int]"
    by simp
  have s1: "(\<Sum>m < length [1 / 2 :: real]. [1 / 2] ! m * real_of_int ([2, 6, 12] ! m)) = 1 / 2 * 2"
    by simp
  have s2: "(\<Sum>m < length [- 1 / 2, 1 / 4 :: real].
               [- 1 / 2, 1 / 4] ! m * real_of_int ([2, 6, 12] ! m)) = - 1 / 2 * 2 + 1 / 4 * 6"
    by (simp add: lessThan_Suc)
  have "Tc_list_getter [[1 / 2], [- 1 / 2, 1 / 4]] [2, 6, 12] =
        Inr (map (\<lambda>J. py_round
                        \<bar>2 * pi * (\<Sum>m < length J. J ! m * real_of_int ([2, 6, 12] ! m)) / (3 * k_B)\<bar> 1)
                 [[1 / 2], [- 1 / 2, 1 / 4]])"
    using Tc_list_formula [of "[[1 / 2], [- 1 / 2, 1 / 4]]" "[2, 6, 12]"] h by blast
  then show ?thesis
    by (simp only: list.map s1 s2)
qed

section \<open>Configuration Ranker: results\<close>

text \<open>The sample routine delivers what \<open>is_argsort\<close> asks.\<close>

lemma argsort_stable_ok: "argsort_ok argsort_stable"
  by (simp add: argsort_ok_def is_argsort_def argsort_stable_def sorted_sort_key)

lemma full_matrix_Inr:
  "length m = length E_list \<Longrightarrow>
   full_matrix m E_list = Inr (map (\<lambda>(r, e). r @ [e]) (zip m E_list))"
  by (simp add: full_matrix_def)

lemma map_last_full:
  "length m = length E_list \<Longrightarrow> map last (map (\<lambda>(r, e). r @ [e]) (zip m E_list)) = E_list"
proof (induction m arbitrary: E_list)
  case Nil
  then show ?case by simp
next
  case (Cons r m)
  then show ?case by (cases E_list) auto
qed

lemma mset_reorder:
  assumes "mset p = mset [0..<length xs]"
  shows "mset (map (\<lambda>k. xs ! k) p) = mset xs"
proof -
  have "mset (map (\<lambda>k. xs ! k) p) = image_mset (\<lambda>k. xs ! k) (mset p)"
    by simp
  also have "\<dots> = image_mset (\<lambda>k. xs ! k) (mset [0..<length xs])"
    by (simp only: assms)
  also have "\<dots> = mset (map (\<lambda>k. xs ! k) [0..<length xs])"
    by simp
  also have "\<dots> = mset xs"
    by (simp only: map_nth)
  finally show ?thesis .
qed

text \<open>
  What the ranker does for any sorting routine that returns a permutation of the indices
  putting the values in ascending order: with as many energies as matrix rows it returns
  a matrix whose rows are the rows of the scaled matrix, each followed by its own
  energy, reordered so that the energy column is ascending. The order of rows with equal
  energy is the one the routine returns; \<^verbatim>\<open>np.argsort\<close> is called with its default kind,
  for which NumPy promises no stability, so nothing is derived about that order.
\<close>

lemma ranker_ascending:
  assumes "argsort_ok argsort" and "length nn_matrix = length E_list"
  shows "\<exists>sorted_matrix.
           sorted_matrix_getter argsort nn_matrix E_list spin = Inr sorted_matrix \<and>
           mset sorted_matrix =
             mset (map (\<lambda>(r, e). r @ [e]) (zip (nn_spin_matrix nn_matrix spin) E_list)) \<and>
           map last sorted_matrix = sort E_list \<and>
           sorted (map last sorted_matrix)"
proof -
  define full where "full = map (\<lambda>(r, e). r @ [e]) (zip (nn_spin_matrix nn_matrix spin) E_list)"
  define p where "p = argsort (map last full)"
  have len: "length (nn_spin_matrix nn_matrix spin) = length E_list"
    using assms(2) by (simp add: nn_spin_matrix_def)
  have fm: "full_matrix (nn_spin_matrix nn_matrix spin) E_list = Inr full"
    unfolding full_def using len by (rule full_matrix_Inr)
  have lf: "length full = length E_list"
    using len by (simp add: full_def)
  have energies: "map last full = E_list"
    unfolding full_def using len by (rule map_last_full)
  have arg: "is_argsort E_list p"
    using assms(1) by (simp add: argsort_ok_def p_def energies)
  then have perm: "mset p = mset [0..<length E_list]" and asc: "sorted (map (\<lambda>k. E_list ! k) p)"
    by (simp_all add: is_argsort_def)
  have ret: "sorted_matrix_getter argsort nn_matrix E_list spin = Inr (map (\<lambda>k. full ! k) p)"
    by (simp add: sorted_matrix_getter_def fm p_def)
  have rows: "mset (map (\<lambda>k. full ! k) p) = mset full"
    using perm lf by (intro mset_reorder) simp
  have in_range: "k < length full" if "k \<in> set p" for k
  proof -
    have "set p = set [0..<length E_list]" using perm by (rule mset_eq_setD)
    with that lf show ?thesis by simp
  qed
  have "map last (map (\<lambda>k. full ! k) p) = map (\<lambda>k. map last full ! k) p"
    using in_range by (simp add: o_def)
  then have col: "map last (map (\<lambda>k. full ! k) p) = map (\<lambda>k. E_list ! k) p"
    by (simp only: energies)
  have "mset (map (\<lambda>k. E_list ! k) p) = mset E_list"
    using perm by (rule mset_reorder)
  then have srt: "sort E_list = map (\<lambda>k. E_list ! k) p"
    using asc by (intro properties_for_sort) simp_all
  have c3: "map last (map (\<lambda>k. full ! k) p) = sort E_list"
    by (simp only: col srt)
  have c4: "sorted (map last (map (\<lambda>k. full ! k) p))"
    by (simp only: col asc)
  show ?thesis
    unfolding full_def [symmetric]
    using ret rows c3 c4 by blast
qed

text \<open>Two configurations found in descending energy are swapped.\<close>

lemma ranker_sample:
  "sorted_matrix_getter argsort_stable [[1, 2], [1, - 1]] [- 9, - 10] 2 =
     Inr [[6, - 6, - 10], [6, 12, - 9]]"
  by (simp add: sorted_matrix_getter_def full_matrix_def nn_spin_matrix_def argsort_stable_def
      upt_rec)

end
